theory Spec2Isabelle
  imports Main "HOL-Library.AList" "HOL-Library.Char_ord" "HOL-Library.List_Lexorder"
begin

section \<open>JavaScript strings\<close>

text \<open>
  A JavaScript string is modelled by \<^typ>\<open>string\<close>: a list of 8-bit code units. Header
  names and values, paths and query strings travel as bytes on the wire, so this covers
  what the gateway delivers; code units above \<open>0xFF\<close> are not represented.

  \<open>String.prototype.toLowerCase\<close> on these code units maps \<open>A\<close>..\<open>Z\<close> and the Latin-1
  capitals \<open>0xC0\<close>..\<open>0xDE\<close> (without the multiplication sign \<open>0xD7\<close>) to the code unit
  32 above, which is the same code unit with bit 5 set.
\<close>

definition is_upper :: "char \<Rightarrow> bool" where
  "is_upper c = (let n = (of_char c :: nat) in
     (65 \<le> n \<and> n \<le> 90) \<or> (192 \<le> n \<and> n \<le> 222 \<and> n \<noteq> 215))"

fun lower_char :: "char \<Rightarrow> char" where
  "lower_char (Char b0 b1 b2 b3 b4 b5 b6 b7) =
     (if is_upper (Char b0 b1 b2 b3 b4 b5 b6 b7) then Char b0 b1 b2 b3 b4 True b6 b7
      else Char b0 b1 b2 b3 b4 b5 b6 b7)"

definition toLowerCase :: "string \<Rightarrow> string" where
  "toLowerCase s = map lower_char s"

text \<open>\<open>Array.prototype.join\<close> on an array of strings.\<close>

fun join :: "string \<Rightarrow> string list \<Rightarrow> string" where
  "join sep [] = []"
| "join sep [x] = x"
| "join sep (x # y # ys) = x @ sep @ join sep (y # ys)"

text \<open>
  A plain object with string keys is the list of its entries, each key once, in the order
  \<open>Object.entries\<close> enumerates them. Reading a property that is missing, or whose value is
  \<open>undefined\<close>, gives \<open>undefined\<close>: \<open>None\<close>.
\<close>

definition property :: "(string \<times> 'v option) list \<Rightarrow> string \<Rightarrow> 'v option" where
  "property obj key = (case map_of obj key of None \<Rightarrow> None | Some v \<Rightarrow> v)"

text \<open>\<open>Object.fromEntries\<close>: a later entry overwrites an earlier one with the same key.\<close>

definition fromEntries :: "(string \<times> 'v) list \<Rightarrow> (string \<rightharpoonup> 'v)" where
  "fromEntries es = map_of (rev es)"

section \<open>Errors\<close>

text \<open>
  The adapter raises nothing itself; what it calls does. \<open>Illegal_Header_Name\<close> and
  \<open>Illegal_Header_Value\<close> are the \<open>TypeError\<close>s of the \<open>Headers\<close> class, \<open>Invalid_URL\<close> the
  \<open>TypeError\<close> of the \<open>URL\<close> constructor, \<open>Body_Not_Allowed\<close> the \<open>TypeError\<close> of the
  \<open>Request\<close> constructor for a \<open>GET\<close> or \<open>HEAD\<close> request with a body, and \<open>Rejected\<close> any
  other reason a promise is rejected with (the error of a stream).
\<close>

datatype error =
    Illegal_Header_Name string
  | Illegal_Header_Value string
  | Invalid_URL
  | Body_Not_Allowed
  | Rejected string

section \<open>The Headers class\<close>

text \<open>
  \<open>Headers\<close> is the class the node runtime of the framework re-exports from node-fetch 2.
  It keeps one object, \<open>MAP\<close>, from header names as first written to the list of their
  values; \<open>raw()\<close> returns that object. The object is modelled by its entries in
  enumeration order, a name that is new to it being enumerated last (JavaScript puts
  names that are array indices first; the results below read the collection by name and
  do not depend on where a new entry stands). A name is looked up without regard to case.
\<close>

type_synonym header_map = "(string \<times> string list) list"

fun headers_find :: "header_map \<Rightarrow> string \<Rightarrow> string option" where
  "headers_find [] name = None"
| "headers_find ((key, vs) # m) name =
     (if toLowerCase key = toLowerCase name then Some key else headers_find m name)"

text \<open>
  \<open>validateName\<close> refuses the empty name and every character outside the HTTP token
  characters; \<open>validateValue\<close> refuses the control characters other than the tab.
\<close>

definition token_char :: "char \<Rightarrow> bool" where
  "token_char c = (let n = (of_char c :: nat) in
     (97 \<le> n \<and> n \<le> 122) \<or> (65 \<le> n \<and> n \<le> 90) \<or> (48 \<le> n \<and> n \<le> 57) \<or>
     n \<in> set [94, 95, 96, 45, 33, 35, 36, 37, 38, 39, 42, 43, 46, 124, 126])"

definition legal_name :: "string \<Rightarrow> bool" where
  "legal_name name = (name \<noteq> [] \<and> list_all token_char name)"

definition value_char :: "char \<Rightarrow> bool" where
  "value_char c = (let n = (of_char c :: nat) in n = 9 \<or> (32 \<le> n \<and> n \<le> 126) \<or> 128 \<le> n)"

definition legal_value :: "string \<Rightarrow> bool" where
  "legal_value v = list_all value_char v"

definition headers_append :: "header_map \<Rightarrow> string \<Rightarrow> string \<Rightarrow> error + header_map" where
  "headers_append m name v =
     (if \<not> legal_name name then Inl (Illegal_Header_Name name)
      else if \<not> legal_value v then Inl (Illegal_Header_Value v)
      else Inr (case headers_find m name of
                  Some key \<Rightarrow> AList.map_entry key (\<lambda>vs. vs @ [v]) m
                | None \<Rightarrow> AList.update name [v] m))"

text \<open>
  \<open>get\<close>, \<open>set\<close> and \<open>delete\<close> validate the name (and value) as \<open>append\<close> does. The adapter
  calls them with the constants \<open>set-cookie\<close>, \<open>Connection\<close>, \<open>close\<close> and \<open>content-type\<close>
  only, which pass (lemma \<open>adapter_constants_legal\<close>), so they are modelled without the
  check.
\<close>

definition headers_get :: "header_map \<Rightarrow> string \<Rightarrow> string option" where
  "headers_get m name =
     (case headers_find m name of
        None \<Rightarrow> None
      | Some key \<Rightarrow> map_option (join '', '') (map_of m key))"

definition headers_set :: "header_map \<Rightarrow> string \<Rightarrow> string \<Rightarrow> header_map" where
  "headers_set m name v =
     (case headers_find m name of
        Some key \<Rightarrow> AList.update key [v] m
      | None \<Rightarrow> AList.update name [v] m)"

definition headers_delete :: "header_map \<Rightarrow> string \<Rightarrow> header_map" where
  "headers_delete m name =
     (case headers_find m name of
        Some key \<Rightarrow> AList.delete key m
      | None \<Rightarrow> m)"

text \<open>
  Iterating a \<open>Headers\<close> object yields its keys sorted, each in lower case with its values
  joined by a comma and a space.
\<close>

definition headers_entries :: "header_map \<Rightarrow> (string \<times> string) list" where
  "headers_entries m = map (\<lambda>(key, vs). (toLowerCase key, join '', '' vs)) (sort_key fst m)"

text \<open>
  What every \<open>Headers\<close> object satisfies: no two keys are equal up to case, and every key
  has at least one value. The empty object satisfies it and \<open>append\<close>, \<open>set\<close> and \<open>delete\<close>
  keep it (lemmas \<open>headers_inv_empty\<close>, \<open>headers_inv_append\<close>, \<open>headers_inv_set\<close>,
  \<open>headers_inv_delete\<close>).
\<close>

definition headers_inv :: "header_map \<Rightarrow> bool" where
  "headers_inv m = (distinct (map (\<lambda>e. toLowerCase (fst e)) m) \<and> list_all (\<lambda>e. snd e \<noteq> []) m)"

section \<open>Streams, buffers and the platform\<close>

text \<open>
  A buffer is a list of bytes. A readable stream is the list of the events it emits; a
  stream that emits neither \<open>end\<close> nor \<open>error\<close> leaves its reader waiting for ever.
\<close>

type_synonym buffer = "char list"

datatype stream_event = Data buffer | End | Error error

type_synonym readable = "stream_event list"

text \<open>
  What the adapter takes from its platform and does not define: the list of binary
  content types of the Architect helper, \<open>Buffer.prototype.toString\<close>,
  \<open>Buffer.from(s, "base64")\<close>, \<open>Response.prototype.text\<close> (on the body it reads), the
  \<open>href\<close> of \<open>new URL(input, base)\<close>, and two functions the \<open>Request\<close> constructor applies
  to what it is given: \<open>String.prototype.toUpperCase\<close> (the capital of a code unit need
  not be one of the 8-bit code units, so it is not defined here) and the legacy
  \<open>url.format(url.parse(href))\<close>. A promise that never settles is \<open>None\<close>.
\<close>

record platform =
  binaryTypes :: "string list"
  toString :: "buffer \<Rightarrow> string"
  from_base64 :: "string \<Rightarrow> buffer"
  response_text :: "readable \<Rightarrow> (error + string) option"
  new_URL :: "string \<Rightarrow> string \<Rightarrow> error + string"
  toUpperCase :: "string \<Rightarrow> string"
  url_format_parse :: "string \<Rightarrow> string"

section \<open>The response side: bufferStream and sendRemixResponse\<close>

fun bufferStream_events :: "readable \<Rightarrow> buffer list \<Rightarrow> (error + buffer) option" where
  "bufferStream_events [] chunks = None"
| "bufferStream_events (Data chunk # es) chunks = bufferStream_events es (chunks @ [chunk])"
| "bufferStream_events (End # es) chunks = Some (Inr (concat chunks))"
| "bufferStream_events (Error e # es) chunks = Some (Inl e)"

definition bufferStream :: "readable \<Rightarrow> (error + buffer) option" where
  "bufferStream stream = bufferStream_events stream []"

record abort_signal =
  aborted :: bool

record abort_controller =
  signal :: abort_signal

record response =
  status :: int
  headers :: header_map
  body :: readable

record reply =
  statusCode :: int
  headers :: "string \<rightharpoonup> string"
  cookies :: "string list"
  body :: string
  isBase64Encoded :: bool

text \<open>The loop over \<open>Object.entries(response.headers.raw())\<close> that fills \<open>cookies\<close>.\<close>

fun collect_cookies :: "header_map \<Rightarrow> string list \<Rightarrow> string list" where
  "collect_cookies [] out = out"
| "collect_cookies ((key, vs) # entries) out =
     collect_cookies entries (if toLowerCase key = ''set-cookie'' then out @ vs else out)"

definition sendRemixResponse ::
  "platform \<Rightarrow> response \<Rightarrow> abort_controller \<Rightarrow> (error + reply) option" where
  "sendRemixResponse P res abortController =
     (let cookies = collect_cookies (response.headers res) [];
          h1 = (if cookies \<noteq> [] then headers_delete (response.headers res) ''set-cookie''
                else response.headers res);
          h2 = (if aborted (signal abortController) then headers_set h1 ''Connection'' ''close''
                else h1);
          isBinary = (case headers_get h2 ''content-type'' of
                        None \<Rightarrow> False
                      | Some contentType \<Rightarrow>
                          if contentType \<noteq> [] then contentType \<in> set (binaryTypes P) else False);
          body = (if isBinary
                  then map_option (map_sum id (toString P)) (bufferStream (response.body res))
                  else response_text P (response.body res))
      in case body of
           None \<Rightarrow> None
         | Some (Inl e) \<Rightarrow> Some (Inl e)
         | Some (Inr b) \<Rightarrow>
             Some (Inr \<lparr>statusCode = status res,
                        headers = fromEntries (headers_entries h2),
                        cookies = cookies,
                        body = b,
                        isBase64Encoded = isBinary\<rparr>))"

section \<open>The request side: createRemixHeaders and createRemixRequest\<close>

text \<open>
  The fields of the gateway event the adapter reads. A header value may be \<open>undefined\<close>,
  the cookie list and the body may be absent; \<open>http_method\<close> is
  \<open>requestContext.http.method\<close>. In the request, \<open>request_method\<close> and \<open>request_signal\<close>
  are its \<open>method\<close> and \<open>signal\<close>; \<open>request_init\<close> is the object of options the adapter
  hands to the \<open>Request\<close> constructor.
\<close>

record event =
  rawPath :: string
  rawQueryString :: string
  headers :: "(string \<times> string option) list"
  cookies :: "string list option"
  http_method :: string
  body :: "string option"
  isBase64Encoded :: bool

record request =
  url :: string
  request_method :: string
  headers :: header_map
  body :: "string option"
  abortController :: "abort_controller option"
  request_signal :: "abort_signal option"

record request_init =
  init_method :: string
  init_headers :: header_map
  init_body :: "string option"
  init_abortController :: "abort_controller option"
  init_signal :: "abort_signal option"

text \<open>The loop over \<open>Object.entries(requestHeaders)\<close>: an entry with a falsy value is skipped.\<close>

fun append_entries :: "(string \<times> string option) list \<Rightarrow> header_map \<Rightarrow> error + header_map" where
  "append_entries [] hs = Inr hs"
| "append_entries ((header, v) # entries) hs =
     (case v of
        None \<Rightarrow> append_entries entries hs
      | Some s \<Rightarrow>
          if s = [] then append_entries entries hs
          else (case headers_append hs header s of
                  Inl e \<Rightarrow> Inl e
                | Inr hs' \<Rightarrow> append_entries entries hs'))"

definition createRemixHeaders ::
  "(string \<times> string option) list \<Rightarrow> string list option \<Rightarrow> error + header_map" where
  "createRemixHeaders requestHeaders requestCookies =
     (case append_entries requestHeaders [] of
        Inl e \<Rightarrow> Inl e
      | Inr hs \<Rightarrow>
          (case requestCookies of
             None \<Rightarrow> Inr hs
           | Some cs \<Rightarrow> headers_append hs ''Cookie'' (join ''; '' cs)))"

text \<open>
  \<open>host\<close> is \<open>event.headers["x-forwarded-host"] || event.headers.host\<close>; in the template
  literal an \<open>undefined\<close> host prints as the word \<open>undefined\<close>.
\<close>

definition request_host :: "event \<Rightarrow> string option" where
  "request_host ev =
     (case property (event.headers ev) ''x-forwarded-host'' of
        Some h \<Rightarrow> if h \<noteq> [] then Some h else property (event.headers ev) ''host''
      | None \<Rightarrow> property (event.headers ev) ''host'')"

definition template :: "string option \<Rightarrow> string" where
  "template v = (case v of None \<Rightarrow> ''undefined'' | Some s \<Rightarrow> s)"

definition request_search :: "event \<Rightarrow> string" where
  "request_search ev =
     (if length (rawQueryString ev) \<noteq> 0 then ''?'' @ rawQueryString ev else [])"

definition request_body :: "platform \<Rightarrow> event \<Rightarrow> string option" where
  "request_body P ev =
     (case event.body ev of
        None \<Rightarrow> None
      | Some b \<Rightarrow>
          if b \<noteq> [] \<and> event.isBase64Encoded ev then Some (toString P (from_base64 P b))
          else Some b)"

text \<open>
  \<open>NodeRequest\<close> is the \<open>Request\<close> class of node-fetch 2 with the abort controller kept
  beside it. Its constructor takes the method of the options, or \<open>GET\<close> when that is
  empty, in upper case; refuses a body on a \<open>GET\<close> or \<open>HEAD\<close> request; copies the headers
  and, when there is a body (a string here) and no \<open>Content-Type\<close> header, appends the
  content type of text; and keeps the URL as the legacy parser of the runtime reads it:
  the \<open>url\<close> of the request is \<open>url.format(url.parse(href))\<close>. The body is kept as text.
\<close>

definition new_NodeRequest :: "platform \<Rightarrow> string \<Rightarrow> request_init \<Rightarrow> error + request" where
  "new_NodeRequest P input init =
     (let m = toUpperCase P (if init_method init \<noteq> [] then init_method init else ''GET'')
      in if init_body init \<noteq> None \<and> (m = ''GET'' \<or> m = ''HEAD'') then Inl Body_Not_Allowed
         else
           (case (if init_body init \<noteq> None \<and> headers_find (init_headers init) ''Content-Type'' = None
                  then headers_append (init_headers init) ''Content-Type'' ''text/plain;charset=UTF-8''
                  else Inr (init_headers init)) of
              Inl e \<Rightarrow> Inl e
            | Inr hs \<Rightarrow>
                Inr \<lparr>url = url_format_parse P input,
                     request_method = m,
                     headers = hs,
                     body = init_body init,
                     abortController = init_abortController init,
                     request_signal = init_signal init\<rparr>))"

definition createRemixRequest ::
  "platform \<Rightarrow> event \<Rightarrow> abort_controller option \<Rightarrow> error + request" where
  "createRemixRequest P ev ac =
     (case new_URL P (rawPath ev @ request_search ev) (''https://'' @ template (request_host ev)) of
        Inl e \<Rightarrow> Inl e
      | Inr href \<Rightarrow>
          (case createRemixHeaders (event.headers ev) (event.cookies ev) of
             Inl e \<Rightarrow> Inl e
           | Inr hs \<Rightarrow>
               new_NodeRequest P href
                 \<lparr>init_method = http_method ev,
                  init_headers = hs,
                  init_body = request_body P ev,
                  init_abortController = ac,
                  init_signal = map_option signal ac\<rparr>))"

section \<open>The URL constructor and the legacy URL parser\<close>

text \<open>
  \<open>new URL(input, base)\<close> parses \<open>base\<close>, then \<open>input\<close> relative to it, as the URL Standard
  prescribes, and \<open>href\<close> serialises the result. The model \<open>whatwg_href\<close> states what the
  Standard gives on the calls it covers and is silent (\<open>None\<close>) on every other call:
  \<^item> \<open>base\<close> is \<open>https://\<close> followed by a host. An empty host is a failure: the
    constructor throws. A host is covered (\<open>url_host\<close>) when it is at most 255 characters
    long and consists of a name, optionally followed by a colon and a port. The name,
    taken in lower case, consists of lower-case letters, digits, hyphens and dots, has
    no empty label and no label starting with \<open>xn--\<close>, and either its last label starts
    with a letter (a domain name) or it is an IPv4 address written as four decimal
    numbers up to 255 without leading zeros. The port is a decimal number up to 65535
    without leading zeros. The host is serialised as the name in lower case, followed
    by the colon and the port unless the port is 443, the default of the scheme.
  \<^item> \<open>input\<close> is covered when it starts with one slash (two would replace the host) and
    consists of printable ASCII without the space, the backslash, \<open>#\<close> and \<open>^\<close>.
    Up to the first \<open>?\<close> it is the path, after it the query.
  \<^item> The path is read segment by segment (the path state of the Standard): a
    double-dot segment removes the last segment read, a single-dot segment is dropped,
    either leaves an empty segment when it is the last one; every other segment is
    percent-encoded. Of the covered characters the path percent-encode set holds the
    double quote, \<open><\<close>, \<open>>\<close>, the backquote and the braces; the query percent-encode set
    of a special scheme holds the double quote, the single quote, \<open><\<close> and \<open>>\<close>.
\<close>

fun split_on :: "char \<Rightarrow> string \<Rightarrow> string list" where
  "split_on d [] = [[]]"
| "split_on d (c # cs) =
     (if c = d then [] # split_on d cs
      else (case split_on d cs of s # ss \<Rightarrow> (c # s) # ss | [] \<Rightarrow> [[c]]))"

definition is_lower_alpha :: "char \<Rightarrow> bool" where
  "is_lower_alpha c = (let n = (of_char c :: nat) in 97 \<le> n \<and> n \<le> 122)"

definition is_digit :: "char \<Rightarrow> bool" where
  "is_digit c = (let n = (of_char c :: nat) in 48 \<le> n \<and> n \<le> 57)"

definition lower_host_char :: "char \<Rightarrow> bool" where
  "lower_host_char c = (let n = (of_char c :: nat) in
     is_lower_alpha c \<or> is_digit c \<or> n = 45 \<or> n = 46)"

definition decimal :: "string \<Rightarrow> int" where
  "decimal ds = foldl (\<lambda>a c. 10 * a + (of_char c - 48)) 0 ds"

definition canonical_decimal :: "string \<Rightarrow> bool" where
  "canonical_decimal ds =
     (case ds of
        [] \<Rightarrow> False
      | c # cs \<Rightarrow> list_all is_digit ds \<and> (c \<noteq> CHR ''0'' \<or> cs = []))"

definition dotted_quad :: "string list \<Rightarrow> bool" where
  "dotted_quad labels =
     (length labels = 4 \<and> list_all (\<lambda>l. canonical_decimal l \<and> decimal l \<le> 255) labels)"

definition name_form :: "string \<Rightarrow> bool" where
  "name_form n =
     (list_all lower_host_char n \<and>
      list_all (\<lambda>l. l \<noteq> [] \<and> take 4 l \<noteq> ''xn--'') (split_on CHR ''.'' n) \<and>
      ((case last (split_on CHR ''.'' n) of [] \<Rightarrow> False | c # _ \<Rightarrow> is_lower_alpha c) \<or>
       dotted_quad (split_on CHR ''.'' n)))"

definition url_host :: "string \<Rightarrow> string option" where
  "url_host h =
     (let n = toLowerCase (takeWhile (\<lambda>c. c \<noteq> CHR '':'') h)
      in if \<not> name_form n \<or> 255 < length h then None
         else (case dropWhile (\<lambda>c. c \<noteq> CHR '':'') h of
                 [] \<Rightarrow> Some n
               | _ # ds \<Rightarrow>
                   if canonical_decimal ds \<and> decimal ds \<le> 65535
                   then Some (n @ (if ds = ''443'' then [] else CHR '':'' # ds))
                   else None))"

definition url_char :: "char \<Rightarrow> bool" where
  "url_char c = (let n = (of_char c :: nat) in 33 \<le> n \<and> n \<le> 126 \<and> n \<notin> set [35, 92, 94])"

definition plain_reference :: "string \<Rightarrow> bool" where
  "plain_reference input =
     (list_all url_char input \<and>
      (case input of
         [] \<Rightarrow> False
       | c # rest \<Rightarrow> c = CHR ''/'' \<and> (case rest of [] \<Rightarrow> True | c' # _ \<Rightarrow> c' \<noteq> CHR ''/'')))"

definition hex_digit :: "nat \<Rightarrow> char" where
  "hex_digit n = ''0123456789ABCDEF'' ! n"

definition percent_encode_byte :: "char \<Rightarrow> string" where
  "percent_encode_byte c = [CHR ''%'', hex_digit (of_char c div 16), hex_digit (of_char c mod 16)]"

definition percent_encode :: "(char \<Rightarrow> bool) \<Rightarrow> string \<Rightarrow> string" where
  "percent_encode in_set s = concat (map (\<lambda>c. if in_set c then percent_encode_byte c else [c]) s)"

definition path_encode_set :: "char \<Rightarrow> bool" where
  "path_encode_set c = ((of_char c :: nat) \<in> set [34, 60, 62, 96, 123, 125])"

definition query_encode_set :: "char \<Rightarrow> bool" where
  "query_encode_set c = ((of_char c :: nat) \<in> set [34, 39, 60, 62])"

definition single_dot :: "string \<Rightarrow> bool" where
  "single_dot seg = (toLowerCase seg \<in> set [''.'', ''%2e''])"

definition double_dot :: "string \<Rightarrow> bool" where
  "double_dot seg = (toLowerCase seg \<in> set [''..'', ''.%2e'', ''%2e.'', ''%2e%2e''])"

fun path_state :: "string list \<Rightarrow> string list \<Rightarrow> string list" where
  "path_state [] path = path"
| "path_state (seg # rest) path =
     (if double_dot seg
      then path_state rest (if rest = [] then butlast path @ [[]] else butlast path)
      else if single_dot seg
      then path_state rest (if rest = [] then path @ [[]] else path)
      else path_state rest (path @ [percent_encode path_encode_set seg]))"

text \<open>
  The serialised path and query of a covered \<open>input\<close>: every segment of the path after a
  slash, then the query, percent-encoded, after its \<open>?\<close>.
\<close>

definition whatwg_rest :: "string \<Rightarrow> string" where
  "whatwg_rest input =
     concat (map ((#) CHR ''/'')
       (path_state (split_on CHR ''/'' (tl (takeWhile (\<lambda>c. c \<noteq> CHR ''?'') input))) [])) @
     (case dropWhile (\<lambda>c. c \<noteq> CHR ''?'') input of
        [] \<Rightarrow> []
      | _ # q \<Rightarrow> CHR ''?'' # percent_encode query_encode_set q)"

definition whatwg_href :: "string \<Rightarrow> string \<Rightarrow> (error + string) option" where
  "whatwg_href input base =
     (if take 8 base \<noteq> ''https://'' then None
      else if drop 8 base = [] then Some (Inl Invalid_URL)
      else (case url_host (drop 8 base) of
              None \<Rightarrow> None
            | Some host \<Rightarrow>
                if \<not> plain_reference input then None
                else Some (Inr (''https://'' @ host @ whatwg_rest input))))"

text \<open>
  The legacy parser of the runtime, \<open>url.parse\<close>, followed by \<open>url.format\<close>: on an \<open>https\<close>
  URL whose host is a covered host in serialised form and whose rest (path and query)
  starts with a slash and consists of the characters covered above, the host stays and
  the rest is escaped: the double and the single quote, \<open><\<close>, \<open>>\<close>, the backquote, the
  braces and the vertical bar are percent-encoded. The model is silent elsewhere.
\<close>

definition legacy_escape_set :: "char \<Rightarrow> bool" where
  "legacy_escape_set c = ((of_char c :: nat) \<in> set [34, 39, 60, 62, 96, 123, 124, 125])"

definition legacy_href :: "string \<Rightarrow> string option" where
  "legacy_href href =
     (let host = takeWhile (\<lambda>c. c \<noteq> CHR ''/'') (drop 8 href);
          rest = dropWhile (\<lambda>c. c \<noteq> CHR ''/'') (drop 8 href)
      in if take 8 href = ''https://'' \<and> url_host host = Some host \<and> rest \<noteq> [] \<and>
            list_all url_char rest
         then Some (''https://'' @ host @ percent_encode legacy_escape_set rest)
         else None)"





fun ascii_upper_char :: "char \<Rightarrow> char" where
  "ascii_upper_char (Char b0 b1 b2 b3 b4 b5 b6 b7) =
     (if is_lower_alpha (Char b0 b1 b2 b3 b4 b5 b6 b7) then Char b0 b1 b2 b3 b4 False b6 b7
      else Char b0 b1 b2 b3 b4 b5 b6 b7)"







section \<open>A sample platform\<close>

text \<open>
  A platform to run the adapter on: two binary content types, buffers of ASCII bytes read
  as text byte by byte, a base64 decoder for the alphabet of RFC 4648 (characters outside
  it are skipped, decoding stops at the padding), \<open>text()\<close> as the runtime implements it
  (the drained body as a string), a URL constructor that follows the model and throws
  where the model is silent, a legacy parser that follows its model and changes nothing
  where that is silent, and \<open>toUpperCase\<close> as on ASCII.
\<close>

definition base64_value :: "char \<Rightarrow> nat option" where
  "base64_value c = (let n = (of_char c :: nat) in
     if 65 \<le> n \<and> n \<le> 90 then Some (n - 65)
     else if 97 \<le> n \<and> n \<le> 122 then Some (n - 71)
     else if 48 \<le> n \<and> n \<le> 57 then Some (n + 4)
     else if n = 43 then Some 62
     else if n = 47 then Some 63
     else None)"

fun base64_groups :: "nat list \<Rightarrow> nat list" where
  "base64_groups (a # b # c # d # rest) =
     [a * 4 + b div 16, (b mod 16) * 16 + c div 4, (c mod 4) * 64 + d] @ base64_groups rest"
| "base64_groups [a, b, c] = [a * 4 + b div 16, (b mod 16) * 16 + c div 4]"
| "base64_groups [a, b] = [a * 4 + b div 16]"
| "base64_groups _ = []"

definition rfc4648_decode :: "string \<Rightarrow> buffer" where
  "rfc4648_decode s =
     map char_of (base64_groups (List.map_filter base64_value (takeWhile (\<lambda>c. c \<noteq> CHR ''='') s)))"

definition sample_platform :: platform where
  "sample_platform =
     \<lparr>binaryTypes = [''application/octet-stream'', ''image/png''],
      toString = (\<lambda>buf. buf),
      from_base64 = rfc4648_decode,
      response_text = (\<lambda>stream. map_option (map_sum id (\<lambda>buf. buf)) (bufferStream stream)),
      new_URL = (\<lambda>input base. case whatwg_href input base of Some r \<Rightarrow> r | None \<Rightarrow> Inl Invalid_URL),
      toUpperCase = map ascii_upper_char,
      url_format_parse = (\<lambda>href. case legacy_href href of Some r \<Rightarrow> r | None \<Rightarrow> href)\<rparr>"

section \<open>Notions used to state the properties\<close>

text \<open>
  The header collection of the response when the reply is built (after the cookies have
  been removed and the abort flag has been looked at), and the classification of a
  header collection as binary, both as \<open>sendRemixResponse\<close> computes them.
\<close>

definition sent_headers :: "response \<Rightarrow> abort_controller \<Rightarrow> header_map" where
  "sent_headers res ac =
     (let h1 = (if collect_cookies (response.headers res) [] \<noteq> []
                then headers_delete (response.headers res) ''set-cookie''
                else response.headers res)
      in if aborted (signal ac) then headers_set h1 ''Connection'' ''close'' else h1)"

definition is_binary :: "platform \<Rightarrow> header_map \<Rightarrow> bool" where
  "is_binary P hs =
     (case headers_get hs ''content-type'' of
        None \<Rightarrow> False
      | Some contentType \<Rightarrow>
          if contentType \<noteq> [] then contentType \<in> set (binaryTypes P) else False)"

text \<open>A header entry of the event that the loop of \<open>createRemixHeaders\<close> does not skip.\<close>

definition truthy :: "string option \<Rightarrow> bool" where
  "truthy v = (case v of None \<Rightarrow> False | Some s \<Rightarrow> s \<noteq> [])"

section \<open>Sample inputs\<close>

text \<open>
  A response with two cookies and a text body, and a response with a binary content type.
\<close>

definition example_response :: response where
  "example_response =
     \<lparr>status = 200,
      headers = [(''Set-Cookie'', [''x=1'', ''y=2'']), (''content-type'', [''text/plain''])],
      body = [Data ''hel'', Data ''lo'', End]\<rparr>"

definition binary_response :: response where
  "binary_response =
     \<lparr>status = 200,
      headers = [(''Content-Type'', [''image/png''])],
      body = [Data ''PN'', Data ''G'', End]\<rparr>"

text \<open>
  Events: one with a forwarded host, a query, cookies and a base64 body; one that
  reaches the function directly (the forwarded host is empty, the host has a port, there
  is no body); and three on which the request differs from what it is built from: a host
  with capitals, a query with a single quote, and a path with a double-dot segment
  together with a method in lower case.
\<close>

definition example_event :: event where
  "example_event =
     \<lparr>rawPath = ''/items/42'',
      rawQueryString = ''a=1&b=2'',
      headers = [(''x-forwarded-host'', Some ''example.com''), (''host'', Some ''internal.example'')],
      cookies = Some [''a=1'', ''b=2''],
      http_method = ''POST'',
      body = Some ''aGVsbG8='',
      isBase64Encoded = True\<rparr>"

definition direct_event :: event where
  "direct_event =
     \<lparr>rawPath = ''/'',
      rawQueryString = [],
      headers = [(''host'', Some ''localhost:3333''), (''x-forwarded-host'', Some [])],
      cookies = None,
      http_method = ''GET'',
      body = None,
      isBase64Encoded = False\<rparr>"




section \<open>Strings and the Headers class\<close>

lemma adapter_constants_legal:
  "legal_name ''set-cookie''" "legal_name ''Connection''" "legal_name ''content-type''"
  "legal_name ''Cookie''" "legal_value ''close''" "legal_value []"
  by (simp_all add: legal_name_def legal_value_def token_char_def value_char_def)

lemma find_None_iff:
  "headers_find m name = None \<longleftrightarrow> (\<forall>e\<in>set m. toLowerCase (fst e) \<noteq> toLowerCase name)"
  by (induction m name rule: headers_find.induct) auto

lemma find_SomeD:
  "headers_find m name = Some key \<Longrightarrow> key \<in> fst ` set m \<and> toLowerCase key = toLowerCase name"
  by (induction m name rule: headers_find.induct) (auto split: if_splits)

lemma find_other_delete:
  "toLowerCase k \<noteq> toLowerCase name \<Longrightarrow> headers_find (AList.delete k m) name = headers_find m name"
  by (induction m name rule: headers_find.induct) auto

lemma find_other_update:
  "toLowerCase k \<noteq> toLowerCase name \<Longrightarrow> headers_find (AList.update k v m) name = headers_find m name"
  by (induction m name rule: headers_find.induct) auto

lemma get_delete_other:
  assumes "toLowerCase name' \<noteq> toLowerCase name"
  shows "headers_get (headers_delete m name') name = headers_get m name"
proof (cases "headers_find m name'")
  case None
  then show ?thesis by (simp add: headers_delete_def)
next
  case (Some k)
  then have k: "toLowerCase k = toLowerCase name'" by (simp add: find_SomeD)
  with assms have ne: "toLowerCase k \<noteq> toLowerCase name" by simp
  have "\<And>key. headers_find m name = Some key \<Longrightarrow> key \<noteq> k"
    using ne find_SomeD by blast
  then show ?thesis
    using Some ne by (auto simp: headers_delete_def headers_get_def find_other_delete delete_conv split: option.splits)
qed

lemma get_set_other:
  assumes "toLowerCase name' \<noteq> toLowerCase name"
  shows "headers_get (headers_set m name' v) name = headers_get m name"
proof -
  obtain k where k: "headers_set m name' v = AList.update k [v] m" "toLowerCase k = toLowerCase name'"
    by (cases "headers_find m name'") (auto simp: headers_set_def dest: find_SomeD)
  with assms have ne: "toLowerCase k \<noteq> toLowerCase name" by simp
  have "\<And>key. headers_find m name = Some key \<Longrightarrow> key \<noteq> k"
    using ne find_SomeD by blast
  then show ?thesis
    using k ne by (auto simp: headers_get_def find_other_update update_conv split: option.splits)
qed

lemma collect_cookies_eq:
  "collect_cookies m out = out @ concat (map snd (filter (\<lambda>e. toLowerCase (fst e) = ''set-cookie'') m))"
  by (induction m out rule: collect_cookies.induct) auto

lemma not_upper_bit5: "\<not> is_upper (Char b0 b1 b2 b3 b4 True b6 b7)"
  by (cases b6; cases b7; cases b0; cases b1; cases b2; cases b3; cases b4; simp add: is_upper_def)

lemma lower_char_idem: "lower_char (lower_char c) = lower_char c"
  by (cases c) (simp add: not_upper_bit5)

lemma toLowerCase_idem: "toLowerCase (toLowerCase s) = toLowerCase s"
  by (simp add: toLowerCase_def lower_char_idem)

lemma headers_inv_keys:
  "headers_inv m \<longleftrightarrow> distinct (map toLowerCase (map fst m)) \<and> (\<forall>e\<in>set m. snd e \<noteq> [])"
  by (simp add: headers_inv_def list_all_iff comp_def)

lemma headers_inv_empty: "headers_inv []"
  by (simp add: headers_inv_def)

lemma inv_same_key:
  assumes "headers_inv m" "e \<in> set m" "e' \<in> set m" "toLowerCase (fst e) = toLowerCase (fst e')"
  shows "e = e'"
proof -
  from assms(1) have "inj_on (\<lambda>e. toLowerCase (fst e)) (set m)"
    by (simp add: headers_inv_def distinct_map)
  with assms(2-4) show ?thesis by (auto dest: inj_onD)
qed

lemma set_update_subset: "set (AList.update k v m) \<subseteq> insert (k, v) (set m)"
  by (induction m) auto

lemma update_fresh: "k \<notin> fst ` set m \<Longrightarrow> AList.update k v m = m @ [(k, v)]"
  by (induction m) auto

lemma map_fst_map_entry: "map fst (AList.map_entry k g m) = map fst m"
  by (induction m) auto

lemma set_map_entry:
  "e \<in> set (AList.map_entry k g m) \<Longrightarrow> e \<in> set m \<or> (\<exists>vs. (k, vs) \<in> set m \<and> e = (k, g vs))"
  by (induction m) (auto split: if_splits)

lemma headers_inv_delete: "headers_inv m \<Longrightarrow> headers_inv (headers_delete m name)"
  by (auto simp: headers_delete_def headers_inv_def AList.delete_eq distinct_map_filter list_all_iff
      split: option.splits)

lemma find_None_fresh: "headers_find m name = None \<Longrightarrow> name \<notin> fst ` set m"
  by (auto simp: find_None_iff)

lemma headers_inv_update:
  assumes "headers_inv m" "v \<noteq> []"
    and "k \<in> fst ` set m \<or> toLowerCase k \<notin> toLowerCase ` fst ` set m"
  shows "headers_inv (AList.update k v m)"
proof (cases "k \<in> fst ` set m")
  case True
  then have "map fst (AList.update k v m) = map fst m" by (simp add: update_keys)
  moreover have "\<forall>e\<in>set (AList.update k v m). snd e \<noteq> []"
    using assms(1,2) set_update_subset [of k v m] by (auto simp: headers_inv_keys)
  ultimately show ?thesis using assms(1) by (simp add: headers_inv_keys)
next
  case False
  with assms(3) have "toLowerCase k \<notin> toLowerCase ` fst ` set m" by simp
  with False assms(1,2) show ?thesis
    by (auto simp: update_fresh headers_inv_keys)
qed

lemma headers_inv_set: "headers_inv m \<Longrightarrow> headers_inv (headers_set m name v)"
proof (cases "headers_find m name")
  case None
  assume "headers_inv m"
  moreover from None have "toLowerCase name \<notin> toLowerCase ` fst ` set m"
    by (auto simp: find_None_iff)
  ultimately show ?thesis using None by (simp add: headers_set_def headers_inv_update)
next
  case (Some key)
  assume "headers_inv m"
  moreover from Some have "key \<in> fst ` set m" by (simp add: find_SomeD)
  ultimately show ?thesis using Some by (simp add: headers_set_def headers_inv_update)
qed

lemma headers_inv_append:
  assumes "headers_inv m" "headers_append m name v = Inr m'"
  shows "headers_inv m'"
proof (cases "headers_find m name")
  case None
  then have "toLowerCase name \<notin> toLowerCase ` fst ` set m"
    by (auto simp: find_None_iff)
  with assms None show ?thesis
    by (auto simp: headers_append_def headers_inv_update split: if_splits)
next
  case (Some key)
  with assms have m': "m' = AList.map_entry key (\<lambda>vs. vs @ [v]) m"
    by (auto simp: headers_append_def split: if_splits)
  have "\<forall>e\<in>set m'. snd e \<noteq> []"
    using assms(1) set_map_entry [of _ key "\<lambda>vs. vs @ [v]" m]
    unfolding m' by (fastforce simp: headers_inv_keys)
  then show ?thesis using assms(1) by (simp add: headers_inv_keys m' map_fst_map_entry)
qed

lemma delete_no_match:
  assumes "headers_inv m" "e \<in> set (headers_delete m name)"
  shows "toLowerCase (fst e) \<noteq> toLowerCase name"
proof (cases "headers_find m name")
  case None
  with assms(2) show ?thesis by (auto simp: headers_delete_def find_None_iff)
next
  case (Some key)
  with assms(2) have e: "e \<in> set m" "fst e \<noteq> key"
    by (auto simp: headers_delete_def AList.delete_eq)
  from Some obtain e' where e': "e' \<in> set m" "fst e' = key" "toLowerCase key = toLowerCase name"
    by (auto dest: find_SomeD)
  show ?thesis
  proof
    assume "toLowerCase (fst e) = toLowerCase name"
    with e' have "toLowerCase (fst e) = toLowerCase (fst e')" by simp
    with assms(1) e(1) e'(1) have "e = e'" by (rule inv_same_key)
    with e(2) e'(2) show False by simp
  qed
qed

lemma set_headers_delete: "set (headers_delete m name) \<subseteq> set m"
  by (auto simp: headers_delete_def AList.delete_eq split: option.splits)

lemma headers_set_update:
  "\<exists>key. headers_set m name v = AList.update key [v] m \<and> toLowerCase key = toLowerCase name"
  by (cases "headers_find m name") (auto simp: headers_set_def dest: find_SomeD)

lemma update_mem: "(k, v) \<in> set (AList.update k v m)"
  by (induction m) auto

lemma set_headers_set:
  assumes "e \<in> set (headers_set m name v)"
  shows "e \<in> set m \<or> (toLowerCase (fst e) = toLowerCase name \<and> snd e = [v])"
proof -
  obtain key where key: "headers_set m name v = AList.update key [v] m"
    "toLowerCase key = toLowerCase name"
    using headers_set_update by blast
  with assms set_update_subset [of key "[v]" m] have "e = (key, [v]) \<or> e \<in> set m"
    by auto
  with key(2) show ?thesis by auto
qed

lemma headers_set_has:
  "\<exists>key. (key, [v]) \<in> set (headers_set m name v) \<and> toLowerCase key = toLowerCase name"
proof -
  obtain key where key: "headers_set m name v = AList.update key [v] m"
    "toLowerCase key = toLowerCase name"
    using headers_set_update by blast
  have "(key, [v]) \<in> set (AList.update key [v] m)" by (rule update_mem)
  with key show ?thesis by auto
qed

lemma reply_headers_None:
  "fromEntries (headers_entries m) n = None \<longleftrightarrow> (\<forall>e\<in>set m. toLowerCase (fst e) \<noteq> n)"
  by (force simp: fromEntries_def headers_entries_def map_of_eq_None_iff)

lemma reply_headers_Some:
  assumes "headers_inv m" "(key, vs) \<in> set m"
  shows "fromEntries (headers_entries m) (toLowerCase key) = Some (join '', '' vs)"
proof -
  let ?g = "\<lambda>(key, vs). (toLowerCase key, join '', '' vs)"
  have "map fst (headers_entries m) = map (\<lambda>e. toLowerCase (fst e)) (sort_key fst m)"
    by (simp add: headers_entries_def comp_def case_prod_unfold)
  moreover have "distinct (map (\<lambda>e. toLowerCase (fst e)) (sort_key fst m))"
    using assms(1) by (simp add: headers_inv_def distinct_map)
  ultimately have "distinct (map fst (rev (headers_entries m)))"
    by (simp add: rev_map [symmetric])
  moreover have "(toLowerCase key, join '', '' vs) \<in> set (rev (headers_entries m))"
    using assms(2) by (force simp: headers_entries_def)
  ultimately show ?thesis
    unfolding fromEntries_def by (rule map_of_is_SomeI)
qed

lemma sendRemixResponse_unfold:
  "sendRemixResponse P res ac =
     (case (if is_binary P (sent_headers res ac)
            then map_option (map_sum id (toString P)) (bufferStream (response.body res))
            else response_text P (response.body res)) of
        None \<Rightarrow> None
      | Some (Inl e) \<Rightarrow> Some (Inl e)
      | Some (Inr b) \<Rightarrow>
          Some (Inr \<lparr>statusCode = status res,
                     headers = fromEntries (headers_entries (sent_headers res ac)),
                     cookies = collect_cookies (response.headers res) [],
                     body = b,
                     isBase64Encoded = is_binary P (sent_headers res ac)\<rparr>))"
  by (simp only: sendRemixResponse_def sent_headers_def is_binary_def Let_def)

lemma sendRemixResponse_reply:
  assumes "sendRemixResponse P res ac = Some (Inr rep)"
  shows "reply.cookies rep = collect_cookies (response.headers res) []"
    and "reply.headers rep = fromEntries (headers_entries (sent_headers res ac))"
    and "reply.isBase64Encoded rep = is_binary P (sent_headers res ac)"
    and "statusCode rep = status res"
  using assms unfolding sendRemixResponse_unfold
  by (auto split: option.splits sum.splits)

lemma lower_constants:
  "toLowerCase ''set-cookie'' = ''set-cookie''"
  "toLowerCase ''Connection'' = ''connection''"
  "toLowerCase ''content-type'' = ''content-type''"
  by (simp_all add: toLowerCase_def is_upper_def)

lemma is_binary_sent:
  "is_binary P (sent_headers res ac) = is_binary P (response.headers res)"
  by (simp add: is_binary_def sent_headers_def Let_def get_set_other get_delete_other lower_constants)

lemma no_cookie_without_values:
  assumes "headers_inv m" "collect_cookies m [] = []" "e \<in> set m"
  shows "toLowerCase (fst e) \<noteq> ''set-cookie''"
proof
  assume "toLowerCase (fst e) = ''set-cookie''"
  with assms(3) have "e \<in> set (filter (\<lambda>e. toLowerCase (fst e) = ''set-cookie'') m)" by simp
  with assms(2) have "snd e = []" by (cases e) (auto simp: collect_cookies_eq)
  with assms(1,3) show False by (auto simp: headers_inv_keys)
qed

lemma sent_headers_no_cookie:
  assumes "headers_inv (response.headers res)" "e \<in> set (sent_headers res ac)"
  shows "toLowerCase (fst e) \<noteq> ''set-cookie''"
proof -
  let ?h1 = "if collect_cookies (response.headers res) [] \<noteq> []
             then headers_delete (response.headers res) ''set-cookie''
             else response.headers res"
  have h1: "toLowerCase (fst x) \<noteq> ''set-cookie''" if "x \<in> set ?h1" for x
  proof (cases "collect_cookies (response.headers res) [] = []")
    case True
    with that assms(1) show ?thesis by (auto dest: no_cookie_without_values)
  next
    case False
    with that assms(1) delete_no_match [of "response.headers res" x "''set-cookie''"]
    show ?thesis by (simp add: lower_constants)
  qed
  from assms(2) have "e \<in> set ?h1 \<or> toLowerCase (fst e) = ''connection''"
    by (auto simp: sent_headers_def Let_def lower_constants dest: set_headers_set split: if_splits)
  then show ?thesis
  proof
    assume "e \<in> set ?h1"
    then show ?thesis by (rule h1)
  next
    assume "toLowerCase (fst e) = ''connection''"
    then show ?thesis by simp
  qed
qed

lemma sent_headers_inv:
  "headers_inv (response.headers res) \<Longrightarrow> headers_inv (sent_headers res ac)"
  by (simp add: sent_headers_def Let_def headers_inv_set headers_inv_delete)

lemma filter_unique:
  "distinct (map f m) \<Longrightarrow> e \<in> set m \<Longrightarrow> filter (\<lambda>x. f x = f e) m = [e]"
proof (induction m)
  case Nil
  then show ?case by simp
next
  case (Cons a m)
  show ?case
  proof (cases "a = e")
    case True
    with Cons.prems have "f e \<notin> f ` set m" by simp
    then have "\<forall>x\<in>set m. f x \<noteq> f e" by (metis imageI)
    then have "filter (\<lambda>x. f x = f e) m = []" by (simp add: filter_empty_conv)
    with True show ?thesis by simp
  next
    case False
    with Cons.prems have "e \<in> set m" "f a \<noteq> f e" by auto
    with Cons show ?thesis by simp
  qed
qed

section \<open>Properties of the reply\<close>

text \<open>
  C1. Whenever the reply is produced for a response whose header collection is a
  \<open>Headers\<close> object, the cookie list of the reply holds the values of the entries named
  \<open>set-cookie\<close> (in any case), unmodified and in the order the entries and their values
  are met; so it is exactly the value list of such an entry, when there is one. No name
  that is \<open>set-cookie\<close> up to case is a key of the header mapping of the reply.
\<close>

theorem set_cookie_extraction:
  assumes "headers_inv (response.headers res)"
    and "sendRemixResponse P res ac = Some (Inr rep)"
  shows "reply.cookies rep =
           concat (map snd (filter (\<lambda>e. toLowerCase (fst e) = ''set-cookie'') (response.headers res)))
         \<and> (\<forall>key vs. (key, vs) \<in> set (response.headers res) \<and> toLowerCase key = ''set-cookie''
               \<longrightarrow> reply.cookies rep = vs)
         \<and> (\<forall>name. toLowerCase name = ''set-cookie'' \<longrightarrow> reply.headers rep name = None)"
proof (intro conjI allI impI)
  show c: "reply.cookies rep =
           concat (map snd (filter (\<lambda>e. toLowerCase (fst e) = ''set-cookie'') (response.headers res)))"
    using sendRemixResponse_reply(1) [OF assms(2)] by (simp add: collect_cookies_eq)
  show "reply.cookies rep = vs"
    if "(key, vs) \<in> set (response.headers res) \<and> toLowerCase key = ''set-cookie''" for key vs
  proof -
    have "distinct (map (\<lambda>e. toLowerCase (fst e)) (response.headers res))"
      using assms(1) by (simp add: headers_inv_def)
    from filter_unique [OF this, of "(key, vs)"] that
    have "filter (\<lambda>e. toLowerCase (fst e) = ''set-cookie'') (response.headers res) = [(key, vs)]"
      by simp
    with c show ?thesis by simp
  qed
  show "reply.headers rep name = None" if n: "toLowerCase name = ''set-cookie''" for name
  proof -
    have "toLowerCase (fst e) \<noteq> name" if "e \<in> set (sent_headers res ac)" for e
    proof
      assume "toLowerCase (fst e) = name"
      then have "toLowerCase (toLowerCase (fst e)) = ''set-cookie''" using n by simp
      then have "toLowerCase (fst e) = ''set-cookie''" by (simp add: toLowerCase_idem)
      with sent_headers_no_cookie [OF assms(1) that] show False by simp
    qed
    then show ?thesis
      by (simp add: sendRemixResponse_reply(2) [OF assms(2)] reply_headers_None)
  qed
qed

lemma example_response_inv: "headers_inv (response.headers example_response)"
  by (simp add: example_response_def headers_inv_def toLowerCase_def is_upper_def)

lemma example_response_sent:
  "\<exists>rep. sendRemixResponse sample_platform example_response \<lparr>signal = \<lparr>aborted = b\<rparr>\<rparr> = Some (Inr rep)"
  by (simp add: sendRemixResponse_unfold example_response_def sample_platform_def bufferStream_def
      split: option.splits sum.splits)

theorem set_cookie_extraction_witness:
  "headers_inv (response.headers example_response) \<and>
   (\<exists>rep. sendRemixResponse sample_platform example_response \<lparr>signal = \<lparr>aborted = False\<rparr>\<rparr> = Some (Inr rep)
      \<and> reply.cookies rep = [''x=1'', ''y=2'']
      \<and> reply.headers rep ''set-cookie'' = None \<and> reply.headers rep ''Set-Cookie'' = None)"
proof -
  obtain rep where rep:
    "sendRemixResponse sample_platform example_response \<lparr>signal = \<lparr>aborted = False\<rparr>\<rparr> = Some (Inr rep)"
    using example_response_sent by blast
  have low: "toLowerCase ''Set-Cookie'' = ''set-cookie''" "toLowerCase ''set-cookie'' = ''set-cookie''"
    by (simp_all add: toLowerCase_def is_upper_def)
  have mem: "(''Set-Cookie'', [''x=1'', ''y=2'']) \<in> set (response.headers example_response)"
    by (simp add: example_response_def)
  from set_cookie_extraction [OF example_response_inv rep] mem low
  have "reply.cookies rep = [''x=1'', ''y=2'']"
    "reply.headers rep ''set-cookie'' = None" "reply.headers rep ''Set-Cookie'' = None"
    by blast+
  with rep example_response_inv show ?thesis by blast
qed

lemma binary_response_sent:
  "\<exists>rep. sendRemixResponse sample_platform binary_response \<lparr>signal = \<lparr>aborted = b\<rparr>\<rparr> = Some (Inr rep)"
  by (simp add: sendRemixResponse_unfold binary_response_def sample_platform_def bufferStream_def
      split: option.splits sum.splits)

lemma binary_response_content_type:
  "headers_get (response.headers binary_response) ''content-type'' = Some ''image/png''"
  by (simp add: binary_response_def headers_get_def toLowerCase_def is_upper_def)

lemma example_response_content_type:
  "headers_get (response.headers example_response) ''content-type'' = Some ''text/plain''"
  by (simp add: example_response_def headers_get_def toLowerCase_def is_upper_def)

text \<open>
  C2. Whenever the reply is produced, and the empty string is not in the list of binary
  content types, its \<open>isBase64Encoded\<close> flag is true exactly when the response has a
  \<open>content-type\<close> header and the value of that header (as \<open>get\<close> returns it) is in the
  list; a response without the header gets a reply with the flag false. Removing the
  cookies and setting \<open>Connection\<close> do not change what \<open>get\<close> returns for \<open>content-type\<close>.
\<close>

theorem base64_flag_iff_binary_content_type:
  assumes "[] \<notin> set (binaryTypes P)"
    and "sendRemixResponse P res ac = Some (Inr rep)"
  shows "(reply.isBase64Encoded rep \<longleftrightarrow>
            (\<exists>contentType. headers_get (response.headers res) ''content-type'' = Some contentType
                \<and> contentType \<in> set (binaryTypes P)))
         \<and> (headers_get (response.headers res) ''content-type'' = None
               \<longrightarrow> \<not> reply.isBase64Encoded rep)"
proof -
  have "reply.isBase64Encoded rep = is_binary P (response.headers res)"
    using sendRemixResponse_reply(3) [OF assms(2)] by (simp add: is_binary_sent)
  then show ?thesis
    using assms(1) by (auto simp: is_binary_def split: option.splits)
qed

theorem base64_flag_iff_binary_content_type_witness:
  "[] \<notin> set (binaryTypes sample_platform) \<and>
   (\<exists>rep. sendRemixResponse sample_platform binary_response \<lparr>signal = \<lparr>aborted = False\<rparr>\<rparr> = Some (Inr rep)
      \<and> reply.isBase64Encoded rep) \<and>
   (\<exists>rep. sendRemixResponse sample_platform example_response \<lparr>signal = \<lparr>aborted = False\<rparr>\<rparr> = Some (Inr rep)
      \<and> \<not> reply.isBase64Encoded rep)"
proof -
  have ne: "[] \<notin> set (binaryTypes sample_platform)"
    by (simp add: sample_platform_def)
  obtain rep where rep:
    "sendRemixResponse sample_platform binary_response \<lparr>signal = \<lparr>aborted = False\<rparr>\<rparr> = Some (Inr rep)"
    using binary_response_sent by blast
  obtain rep' where rep':
    "sendRemixResponse sample_platform example_response \<lparr>signal = \<lparr>aborted = False\<rparr>\<rparr> = Some (Inr rep')"
    using example_response_sent by blast
  have "reply.isBase64Encoded rep"
    using base64_flag_iff_binary_content_type [OF ne rep] binary_response_content_type
    by (simp add: sample_platform_def)
  moreover have "\<not> reply.isBase64Encoded rep'"
    using base64_flag_iff_binary_content_type [OF ne rep'] example_response_content_type
    by (simp add: sample_platform_def)
  ultimately show ?thesis using ne rep rep' by blast
qed

text \<open>What \<open>bufferStream\<close> resolves with: the chunks emitted before \<open>end\<close>, concatenated.\<close>

lemma bufferStream_events_ended:
  "bufferStream_events (map Data chunks @ End # rest) acc = Some (Inr (concat (acc @ chunks)))"
  by (induction chunks arbitrary: acc) auto

lemma bufferStream_events_Inr:
  "bufferStream_events stream acc = Some (Inr buf) \<Longrightarrow>
     \<exists>chunks rest. stream = map Data chunks @ End # rest \<and> buf = concat (acc @ chunks)"
proof (induction stream acc rule: bufferStream_events.induct)
  case (2 chunk es chunks)
  then obtain cs rest where "es = map Data cs @ End # rest" "buf = concat ((chunks @ [chunk]) @ cs)"
    by auto
  then have "Data chunk # es = map Data (chunk # cs) @ End # rest \<and> buf = concat (chunks @ chunk # cs)"
    by simp
  then show ?case by blast
next
  case (3 es chunks)
  then have "End # es = map Data [] @ End # es \<and> buf = concat (chunks @ [])" by simp
  then show ?case by blast
qed simp_all

text \<open>
  C7. The body of the reply, with the two ways \<open>sendRemixResponse\<close> can end without a
  reply (the promise is rejected, or it never settles): for a response classified as
  binary it is the outcome of \<open>bufferStream\<close> on the body stream, converted with
  \<open>toString\<close>; for any other response it is the outcome of \<open>text()\<close>. A reply has its
  flag set exactly when the response is classified as binary. \<open>bufferStream\<close> resolves
  with the concatenation of all chunks once the stream ends, and only then.
\<close>

theorem body_materialization:
  "map_option (map_sum id reply.body) (sendRemixResponse P res ac) =
     (if is_binary P (response.headers res)
      then map_option (map_sum id (toString P)) (bufferStream (response.body res))
      else response_text P (response.body res))
   \<and> (\<forall>rep. sendRemixResponse P res ac = Some (Inr rep)
         \<longrightarrow> reply.isBase64Encoded rep = is_binary P (response.headers res))
   \<and> (\<forall>chunks rest. bufferStream (map Data chunks @ End # rest) = Some (Inr (concat chunks)))
   \<and> (\<forall>buf. bufferStream (response.body res) = Some (Inr buf)
         \<longrightarrow> (\<exists>chunks rest. response.body res = map Data chunks @ End # rest \<and> buf = concat chunks))"
proof (intro conjI allI impI)
  show "map_option (map_sum id reply.body) (sendRemixResponse P res ac) =
     (if is_binary P (response.headers res)
      then map_option (map_sum id (toString P)) (bufferStream (response.body res))
      else response_text P (response.body res))"
    unfolding sendRemixResponse_unfold is_binary_sent
    by (auto split: option.splits sum.splits)
  show "reply.isBase64Encoded rep = is_binary P (response.headers res)"
    if "sendRemixResponse P res ac = Some (Inr rep)" for rep
    using sendRemixResponse_reply(3) [OF that] by (simp add: is_binary_sent)
  show "bufferStream (map Data chunks @ End # rest) = Some (Inr (concat chunks))" for chunks rest
    by (simp add: bufferStream_def bufferStream_events_ended)
  show "\<exists>chunks rest. response.body res = map Data chunks @ End # rest \<and> buf = concat chunks"
    if "bufferStream (response.body res) = Some (Inr buf)" for buf
    using bufferStream_events_Inr [of "response.body res" "[]" buf] that
    by (simp add: bufferStream_def)
qed

theorem body_materialization_witness:
  "is_binary sample_platform (response.headers binary_response) \<and>
   map_option (map_sum id reply.body)
     (sendRemixResponse sample_platform binary_response \<lparr>signal = \<lparr>aborted = False\<rparr>\<rparr>) = Some (Inr ''PNG'') \<and>
   \<not> is_binary sample_platform (response.headers example_response) \<and>
   map_option (map_sum id reply.body)
     (sendRemixResponse sample_platform example_response \<lparr>signal = \<lparr>aborted = False\<rparr>\<rparr>) = Some (Inr ''hello'')"
proof -
  have b: "is_binary sample_platform (response.headers binary_response)"
    by (simp add: is_binary_def binary_response_content_type sample_platform_def)
  have t: "\<not> is_binary sample_platform (response.headers example_response)"
    by (simp add: is_binary_def example_response_content_type sample_platform_def)
  have "map_option (map_sum id reply.body)
     (sendRemixResponse sample_platform binary_response \<lparr>signal = \<lparr>aborted = False\<rparr>\<rparr>) = Some (Inr ''PNG'')"
    using body_materialization [of sample_platform binary_response "\<lparr>signal = \<lparr>aborted = False\<rparr>\<rparr>"] b
    by (simp add: sample_platform_def binary_response_def bufferStream_def)
  moreover have "map_option (map_sum id reply.body)
     (sendRemixResponse sample_platform example_response \<lparr>signal = \<lparr>aborted = False\<rparr>\<rparr>) = Some (Inr ''hello'')"
    using body_materialization [of sample_platform example_response "\<lparr>signal = \<lparr>aborted = False\<rparr>\<rparr>"] t
    by (simp add: sample_platform_def example_response_def bufferStream_def)
  ultimately show ?thesis using b t by blast
qed

text \<open>
  C8. Whenever the reply is produced for a \<open>Headers\<close> object and an aborted signal, its
  header mapping has \<open>close\<close> under \<open>connection\<close> (the keys of the mapping are the header
  names in lower case), and its cookie list is the one extracted from the response: the
  same list as with any other abort controller.
\<close>

theorem abort_sets_connection_close:
  assumes "headers_inv (response.headers res)"
    and "aborted (signal ac)"
    and "sendRemixResponse P res ac = Some (Inr rep)"
  shows "reply.headers rep ''connection'' = Some ''close''
         \<and> reply.cookies rep =
             concat (map snd (filter (\<lambda>e. toLowerCase (fst e) = ''set-cookie'') (response.headers res)))
         \<and> (\<forall>ac' rep'. sendRemixResponse P res ac' = Some (Inr rep')
               \<longrightarrow> reply.cookies rep' = reply.cookies rep)"
proof (intro conjI allI impI)
  obtain key where key: "(key, [''close'']) \<in> set (sent_headers res ac)"
    "toLowerCase key = ''connection''"
    using headers_set_has [of "''close''" _ "''Connection''"] assms(2)
    by (auto simp: sent_headers_def Let_def lower_constants)
  have "fromEntries (headers_entries (sent_headers res ac)) (toLowerCase key) = Some (join '', '' [''close''])"
    using sent_headers_inv [OF assms(1)] key(1) by (rule reply_headers_Some)
  then show "reply.headers rep ''connection'' = Some ''close''"
    using key(2) by (simp add: sendRemixResponse_reply(2) [OF assms(3)])
  show "reply.cookies rep =
      concat (map snd (filter (\<lambda>e. toLowerCase (fst e) = ''set-cookie'') (response.headers res)))"
    using sendRemixResponse_reply(1) [OF assms(3)] by (simp add: collect_cookies_eq)
  show "reply.cookies rep' = reply.cookies rep"
    if "sendRemixResponse P res ac' = Some (Inr rep')" for ac' rep'
    using sendRemixResponse_reply(1) [OF assms(3)] sendRemixResponse_reply(1) [OF that] by simp
qed

theorem abort_sets_connection_close_witness:
  "headers_inv (response.headers example_response) \<and>
   aborted (signal \<lparr>signal = \<lparr>aborted = True\<rparr>\<rparr>) \<and>
   (\<exists>rep. sendRemixResponse sample_platform example_response \<lparr>signal = \<lparr>aborted = True\<rparr>\<rparr> = Some (Inr rep)
      \<and> reply.headers rep ''connection'' = Some ''close''
      \<and> reply.cookies rep = [''x=1'', ''y=2''])"
proof -
  obtain rep where rep:
    "sendRemixResponse sample_platform example_response \<lparr>signal = \<lparr>aborted = True\<rparr>\<rparr> = Some (Inr rep)"
    using example_response_sent by blast
  have a: "aborted (signal \<lparr>signal = \<lparr>aborted = True\<rparr>\<rparr>)" by simp
  have "reply.headers rep ''connection'' = Some ''close''" "reply.cookies rep = [''x=1'', ''y=2'']"
    using abort_sets_connection_close [OF example_response_inv a rep]
    by (simp_all add: example_response_def toLowerCase_def is_upper_def)
  with rep example_response_inv a show ?thesis by blast
qed

section \<open>Properties of the request headers\<close>

lemma find_append:
  "headers_find (m @ m') name =
     (case headers_find m name of None \<Rightarrow> headers_find m' name | Some key \<Rightarrow> Some key)"
  by (induction m name rule: headers_find.induct) auto

lemma get_fresh:
  assumes "headers_find m name = None"
  shows "headers_get (m @ [(name, [v])]) name = Some v"
proof -
  from assms have "name \<notin> fst ` set m" by (rule find_None_fresh)
  then have "map_of m name = None" by (simp add: map_of_eq_None_iff)
  then show ?thesis
    using assms by (simp add: headers_get_def find_append map_add_def)
qed

lemma headers_append_fresh:
  assumes "headers_append m name v = Inr m'" "headers_find m name = None"
  shows "m' = m @ [(name, [v])]"
  using assms by (auto simp: headers_append_def update_fresh dest: find_None_fresh split: if_splits)

lemma map_entry_mem:
  "k \<in> fst ` set m \<Longrightarrow> \<exists>vs. (k, g vs) \<in> set (AList.map_entry k g m)"
  by (induction m) auto

lemma headers_append_last:
  assumes "headers_append m name v = Inr m'"
  shows "\<exists>key vs. (key, vs @ [v]) \<in> set m' \<and> toLowerCase key = toLowerCase name"
proof (cases "headers_find m name")
  case None
  with assms have "m' = m @ [(name, [] @ [v])]" by (simp add: headers_append_fresh)
  then have "(name, [] @ [v]) \<in> set m'" by simp
  then show ?thesis by blast
next
  case (Some key)
  then have key: "key \<in> fst ` set m" "toLowerCase key = toLowerCase name"
    by (simp_all add: find_SomeD)
  from assms Some have "m' = AList.map_entry key (\<lambda>vs. vs @ [v]) m"
    by (auto simp: headers_append_def split: if_splits)
  with map_entry_mem [OF key(1), of "\<lambda>vs. vs @ [v]"] key(2) show ?thesis by auto
qed

lemma headers_append_names:
  assumes "headers_append m name v = Inr m'" "e \<in> set m'"
  shows "toLowerCase (fst e) = toLowerCase name \<or> toLowerCase (fst e) \<in> toLowerCase ` fst ` set m"
proof (cases "headers_find m name")
  case None
  from headers_append_fresh [OF assms(1) None] assms(2) show ?thesis by auto
next
  case (Some key)
  with assms have "e \<in> set (AList.map_entry key (\<lambda>vs. vs @ [v]) m)"
    by (auto simp: headers_append_def split: if_splits)
  then have "fst e \<in> fst ` set (AList.map_entry key (\<lambda>vs. vs @ [v]) m)" by (rule imageI)
  then have "fst e \<in> fst ` set m"
    by (simp only: set_map [symmetric] map_fst_map_entry)
  then show ?thesis by simp
qed

lemma append_entries_inv:
  "append_entries es hs = Inr H \<Longrightarrow> headers_inv hs \<Longrightarrow> headers_inv H"
proof (induction es hs rule: append_entries.induct)
  case (2 header v entries hs)
  then show ?case
    by (auto split: option.splits if_splits sum.splits dest: headers_inv_append)
qed simp

lemma append_entries_names:
  "append_entries es hs = Inr H \<Longrightarrow> e \<in> set H \<Longrightarrow>
     toLowerCase (fst e) \<in> toLowerCase ` fst ` set hs \<or>
     (\<exists>x\<in>set es. truthy (snd x) \<and> toLowerCase (fst e) = toLowerCase (fst x))"
proof (induction es hs rule: append_entries.induct)
  case (2 header v entries hs)
  show ?case
  proof (cases "truthy v")
    case False
    with 2 show ?thesis by (auto simp: truthy_def split: option.splits if_splits)
  next
    case True
    then obtain s where v: "v = Some s" "s \<noteq> []" by (auto simp: truthy_def split: option.splits)
    with "2.prems"(1) obtain hs' where hs': "headers_append hs header s = Inr hs'"
      "append_entries entries hs' = Inr H"
      by (auto split: sum.splits)
    from "2.IH"(3) [OF v(1) v(2) hs'(1) hs'(2) "2.prems"(2)]
    show ?thesis
    proof
      assume "toLowerCase (fst e) \<in> toLowerCase ` fst ` set hs'"
      then obtain e' where "e' \<in> set hs'" "toLowerCase (fst e) = toLowerCase (fst e')" by auto
      with headers_append_names [OF hs'(1)]
      have "toLowerCase (fst e) = toLowerCase header \<or> toLowerCase (fst e) \<in> toLowerCase ` fst ` set hs"
        by simp
      then show ?thesis
      proof
        assume "toLowerCase (fst e) = toLowerCase header"
        with True have "truthy (snd (header, v)) \<and> toLowerCase (fst e) = toLowerCase (fst (header, v))"
          by simp
        then show ?thesis by (metis list.set_intros(1))
      next
        assume "toLowerCase (fst e) \<in> toLowerCase ` fst ` set hs"
        then show ?thesis by simp
      qed
    next
      assume "\<exists>x\<in>set entries. truthy (snd x) \<and> toLowerCase (fst e) = toLowerCase (fst x)"
      then show ?thesis by auto
    qed
  qed
qed simp

lemma createRemixHeaders_Some:
  "createRemixHeaders hs (Some cs) =
     (case createRemixHeaders hs None of
        Inl e \<Rightarrow> Inl e
      | Inr H0 \<Rightarrow> headers_append H0 ''Cookie'' (join ''; '' cs))"
  by (simp add: createRemixHeaders_def split: sum.splits)

lemma createRemixHeaders_inv:
  assumes "createRemixHeaders hs cs = Inr H"
  shows "headers_inv H"
proof -
  have "headers_inv H0" if "append_entries hs [] = Inr H0" for H0
    using append_entries_inv [OF that] by (simp add: headers_inv_empty)
  with assms show ?thesis
    by (auto simp: createRemixHeaders_def split: sum.splits option.splits dest: headers_inv_append)
qed

lemma lower_Cookie: "toLowerCase ''Cookie'' = ''cookie''"
  by (simp add: toLowerCase_def is_upper_def)

lemma no_cookie_entry:
  assumes "createRemixHeaders hs None = Inr H0"
    and "\<forall>e\<in>set hs. toLowerCase (fst e) = ''cookie'' \<longrightarrow> \<not> truthy (snd e)"
  shows "headers_find H0 ''Cookie'' = None"
proof -
  from assms(1) have a: "append_entries hs [] = Inr H0"
    by (simp add: createRemixHeaders_def split: sum.splits)
  have "toLowerCase (fst e) \<noteq> ''cookie''" if "e \<in> set H0" for e
    using append_entries_names [OF a that] assms(2) by auto
  then show ?thesis by (simp add: find_None_iff lower_Cookie)
qed

text \<open>
  C5, as amended. Whenever \<open>createRemixHeaders\<close> returns for an event with a cookie list,
  and no header entry of the event that the loop keeps is named \<open>cookie\<close> (in any case),
  the \<open>Cookie\<close> header of the result is the cookie strings joined with \<open>"; "\<close>; the
  entry \<open>Cookie\<close> has that one value and is the only entry named so.
\<close>

theorem cookie_header_synthesized:
  assumes "createRemixHeaders requestHeaders (Some cs) = Inr H"
    and "\<forall>e\<in>set requestHeaders. toLowerCase (fst e) = ''cookie'' \<longrightarrow> \<not> truthy (snd e)"
  shows "headers_get H ''Cookie'' = Some (join ''; '' cs)
         \<and> (''Cookie'', [join ''; '' cs]) \<in> set H
         \<and> (\<forall>e\<in>set H. toLowerCase (fst e) = ''cookie'' \<longrightarrow> e = (''Cookie'', [join ''; '' cs]))"
proof -
  from assms(1) obtain H0 where H0: "createRemixHeaders requestHeaders None = Inr H0"
    "headers_append H0 ''Cookie'' (join ''; '' cs) = Inr H"
    by (auto simp: createRemixHeaders_Some split: sum.splits)
  have f: "headers_find H0 ''Cookie'' = None" using H0(1) assms(2) by (rule no_cookie_entry)
  have H: "H = H0 @ [(''Cookie'', [join ''; '' cs])]"
    using H0(2) f by (rule headers_append_fresh)
  have g: "headers_get H ''Cookie'' = Some (join ''; '' cs)"
    unfolding H using f by (rule get_fresh)
  from H have m: "(''Cookie'', [join ''; '' cs]) \<in> set H" by simp
  have "e = (''Cookie'', [join ''; '' cs])" if "e \<in> set H" "toLowerCase (fst e) = ''cookie''" for e
    using createRemixHeaders_inv [OF assms(1)] that(1) m
    by (rule inv_same_key) (simp add: that(2) lower_Cookie)
  with g m show ?thesis by blast
qed

theorem cookie_header_synthesized_witness:
  "createRemixHeaders [(''host'', Some ''example.com''), (''accept'', Some ''*/*'')] (Some [''a=1'', ''b=2''])
     = Inr [(''host'', [''example.com'']), (''accept'', [''*/*'']), (''Cookie'', [''a=1; b=2''])]
   \<and> headers_get [(''host'', [''example.com'']), (''accept'', [''*/*'']), (''Cookie'', [''a=1; b=2''])] ''Cookie''
       = Some ''a=1; b=2''"
proof -
  have c: "createRemixHeaders [(''host'', Some ''example.com''), (''accept'', Some ''*/*'')] (Some [''a=1'', ''b=2''])
     = Inr [(''host'', [''example.com'']), (''accept'', [''*/*'']), (''Cookie'', [''a=1; b=2''])]"
    by (simp add: createRemixHeaders_def headers_append_def legal_name_def legal_value_def
        token_char_def value_char_def toLowerCase_def is_upper_def)
  have n: "\<forall>e\<in>set [(''host'', Some ''example.com''), (''accept'', Some ''*/*'')].
            toLowerCase (fst e) = ''cookie'' \<longrightarrow> \<not> truthy (snd e)"
    by (simp add: toLowerCase_def is_upper_def)
  from cookie_header_synthesized [OF c n] c show ?thesis by simp
qed

text \<open>
  C5 as stated fails when the header mapping of the event has an entry named \<open>cookie\<close>
  itself: \<open>append\<close> adds the joined string to the values of that entry, and the header
  reads as both values joined with a comma.
\<close>

theorem cookie_header_merged_counterexample:
  "createRemixHeaders [(''cookie'', Some ''z=9'')] (Some [''a=1'', ''b=2''])
     = Inr [(''cookie'', [''z=9'', ''a=1; b=2''])]
   \<and> headers_get [(''cookie'', [''z=9'', ''a=1; b=2''])] ''Cookie'' = Some ''z=9, a=1; b=2''
   \<and> headers_get [(''cookie'', [''z=9'', ''a=1; b=2''])] ''Cookie'' \<noteq> Some ''a=1; b=2''"
  by (simp add: createRemixHeaders_def headers_append_def headers_get_def legal_name_def legal_value_def
      token_char_def value_char_def toLowerCase_def is_upper_def)

text \<open>
  C10. When the loop over the event's headers returns, an empty cookie list still makes
  \<open>createRemixHeaders\<close> append the empty string under \<open>Cookie\<close>: the result, which
  exists, has an entry named \<open>cookie\<close> whose last value is empty, and reads \<open>Cookie\<close> as
  the empty string if the event brought no such header. Every cookie list that is
  present appends the joined string in this way. With no cookie list the result is the
  outcome of the loop alone, whose entries all stem from header entries of the event.
\<close>

theorem empty_cookie_list_appends_header:
  "(\<forall>H0. createRemixHeaders hs None = Inr H0 \<longrightarrow>
      (\<exists>H. createRemixHeaders hs (Some []) = Inr H
         \<and> headers_append H0 ''Cookie'' [] = Inr H
         \<and> (\<exists>key vs. (key, vs @ [[]]) \<in> set H \<and> toLowerCase key = ''cookie'')
         \<and> (headers_find H0 ''Cookie'' = None \<longrightarrow>
               headers_get H ''Cookie'' = Some [] \<and> headers_get H0 ''Cookie'' = None)))
   \<and> (\<forall>cs H. createRemixHeaders hs (Some cs) = Inr H \<longrightarrow>
         (\<exists>key vs. (key, vs @ [join ''; '' cs]) \<in> set H \<and> toLowerCase key = ''cookie''))
   \<and> createRemixHeaders hs None = append_entries hs []
   \<and> (\<forall>H0 e. createRemixHeaders hs None = Inr H0 \<and> e \<in> set H0 \<longrightarrow>
         (\<exists>x\<in>set hs. truthy (snd x) \<and> toLowerCase (fst e) = toLowerCase (fst x)))"
proof (intro conjI allI impI)
  fix H0 assume H0: "createRemixHeaders hs None = Inr H0"
  obtain H where H: "headers_append H0 ''Cookie'' [] = Inr H"
    by (simp add: headers_append_def adapter_constants_legal)
  then have c: "createRemixHeaders hs (Some []) = Inr H"
    using H0 by (simp add: createRemixHeaders_Some)
  have l: "\<exists>key vs. (key, vs @ [[]]) \<in> set H \<and> toLowerCase key = ''cookie''"
    using headers_append_last [OF H] by (simp add: lower_Cookie)
  have g: "headers_find H0 ''Cookie'' = None \<longrightarrow>
             headers_get H ''Cookie'' = Some [] \<and> headers_get H0 ''Cookie'' = None"
  proof
    assume f: "headers_find H0 ''Cookie'' = None"
    then show "headers_get H ''Cookie'' = Some [] \<and> headers_get H0 ''Cookie'' = None"
      using headers_append_fresh [OF H f] get_fresh [OF f, of "[]"]
      by (simp add: headers_get_def)
  qed
  show "\<exists>H. createRemixHeaders hs (Some []) = Inr H
         \<and> headers_append H0 ''Cookie'' [] = Inr H
         \<and> (\<exists>key vs. (key, vs @ [[]]) \<in> set H \<and> toLowerCase key = ''cookie'')
         \<and> (headers_find H0 ''Cookie'' = None \<longrightarrow>
               headers_get H ''Cookie'' = Some [] \<and> headers_get H0 ''Cookie'' = None)"
    using c H l g by (intro exI [of _ H] conjI)
next
  fix cs H assume "createRemixHeaders hs (Some cs) = Inr H"
  then obtain H0 where "headers_append H0 ''Cookie'' (join ''; '' cs) = Inr H"
    by (auto simp: createRemixHeaders_Some split: sum.splits)
  from headers_append_last [OF this]
  show "\<exists>key vs. (key, vs @ [join ''; '' cs]) \<in> set H \<and> toLowerCase key = ''cookie''"
    by (simp add: lower_Cookie)
next
  show "createRemixHeaders hs None = append_entries hs []"
    by (simp add: createRemixHeaders_def split: sum.splits)
next
  fix H0 e assume "createRemixHeaders hs None = Inr H0 \<and> e \<in> set H0"
  then have "append_entries hs [] = Inr H0" "e \<in> set H0"
    by (simp_all add: createRemixHeaders_def split: sum.splits)
  from append_entries_names [OF this]
  show "\<exists>x\<in>set hs. truthy (snd x) \<and> toLowerCase (fst e) = toLowerCase (fst x)" by simp
qed

theorem empty_cookie_list_appends_header_witness:
  "createRemixHeaders [(''host'', Some ''example.com'')] None = Inr [(''host'', [''example.com''])]
   \<and> createRemixHeaders [(''host'', Some ''example.com'')] (Some [])
       = Inr [(''host'', [''example.com'']), (''Cookie'', [[]])]
   \<and> headers_get [(''host'', [''example.com'']), (''Cookie'', [[]])] ''Cookie'' = Some []
   \<and> headers_get [(''host'', [''example.com''])] ''Cookie'' = None"
proof -
  have n: "createRemixHeaders [(''host'', Some ''example.com'')] None = Inr [(''host'', [''example.com''])]"
    by (simp add: createRemixHeaders_def headers_append_def legal_name_def legal_value_def
        token_char_def value_char_def)
  have f: "headers_find [(''host'', [''example.com''])] ''Cookie'' = None"
    by (simp add: toLowerCase_def is_upper_def)
  have a: "headers_append [(''host'', [''example.com''])] ''Cookie'' []
             = Inr [(''host'', [''example.com'']), (''Cookie'', [[]])]"
    by (simp add: headers_append_def adapter_constants_legal toLowerCase_def is_upper_def)
  from empty_cookie_list_appends_header [of "[(''host'', Some ''example.com'')]",
      THEN conjunct1, THEN spec, THEN mp, OF n]
  obtain H where H: "createRemixHeaders [(''host'', Some ''example.com'')] (Some []) = Inr H
    \<and> headers_append [(''host'', [''example.com''])] ''Cookie'' [] = Inr H
    \<and> (\<exists>key vs. (key, vs @ [[]]) \<in> set H \<and> toLowerCase key = ''cookie'')
    \<and> (headers_find [(''host'', [''example.com''])] ''Cookie'' = None \<longrightarrow>
       headers_get H ''Cookie'' = Some [] \<and> headers_get [(''host'', [''example.com''])] ''Cookie'' = None)" ..
  note H1 = H [THEN conjunct1] and H2 = H [THEN conjunct2, THEN conjunct1]
    and H4 = H [THEN conjunct2, THEN conjunct2, THEN conjunct2, THEN mp, OF f]
  from H2 have e: "H = [(''host'', [''example.com'']), (''Cookie'', [[]])]"
    unfolding a by (rule sum.inject [THEN iffD1, symmetric])
  show ?thesis
    using n H1 H4 unfolding e by (intro conjI) (rule n, assumption, simp_all)
qed

section \<open>Properties of the request\<close>






























lemma new_NodeRequest_fields:
  assumes "new_NodeRequest P input init = Inr req"
  shows "url req = url_format_parse P input"
    and "request_method req = toUpperCase P (if init_method init \<noteq> [] then init_method init else ''GET'')"
    and "request.body req = init_body init"
proof -
  let ?hs = "if init_body init \<noteq> None \<and> headers_find (init_headers init) ''Content-Type'' = None
             then headers_append (init_headers init) ''Content-Type'' ''text/plain;charset=UTF-8''
             else Inr (init_headers init)"
  from assms obtain hs where "?hs = Inr hs"
    and "req = \<lparr>url = url_format_parse P input,
               request_method = toUpperCase P (if init_method init \<noteq> [] then init_method init else ''GET''),
               headers = hs, body = init_body init,
               abortController = init_abortController init, request_signal = init_signal init\<rparr>"
    unfolding new_NodeRequest_def Let_def
    by (cases ?hs) (simp_all split: if_splits)
  then show "url req = url_format_parse P input"
    and "request_method req = toUpperCase P (if init_method init \<noteq> [] then init_method init else ''GET'')"
    and "request.body req = init_body init"
    by simp_all
qed

lemma createRemixRequest_fields:
  assumes "createRemixRequest P ev ac = Inr req"
  shows "\<exists>href. new_URL P (rawPath ev @ request_search ev) (''https://'' @ template (request_host ev))
                  = Inr href \<and> url req = url_format_parse P href"
    and "request_method req = toUpperCase P (if http_method ev \<noteq> [] then http_method ev else ''GET'')"
    and "request.body req = request_body P ev"
proof -
  from assms obtain href hs where href:
    "new_URL P (rawPath ev @ request_search ev) (''https://'' @ template (request_host ev)) = Inr href"
    and req: "new_NodeRequest P href
                 \<lparr>init_method = http_method ev, init_headers = hs, init_body = request_body P ev,
                  init_abortController = ac, init_signal = map_option signal ac\<rparr> = Inr req"
    unfolding createRemixRequest_def by (simp split: sum.splits)
  from new_NodeRequest_fields [OF req] href
  show "\<exists>href. new_URL P (rawPath ev @ request_search ev) (''https://'' @ template (request_host ev))
                  = Inr href \<and> url req = url_format_parse P href"
    and "request_method req = toUpperCase P (if http_method ev \<noteq> [] then http_method ev else ''GET'')"
    and "request.body req = request_body P ev"
    by simp_all
qed
















lemma example_request:
  "createRemixRequest sample_platform example_event None =
     Inr \<lparr>url = ''https://example.com/items/42?a=1&b=2'',
          request_method = ''POST'',
          headers = [(''x-forwarded-host'', [''example.com'']), (''host'', [''internal.example'']),
                     (''Cookie'', [''a=1; b=2'']), (''Content-Type'', [''text/plain;charset=UTF-8''])],
          body = Some ''hello'',
          abortController = None,
          request_signal = None\<rparr>"
  by code_simp

lemma direct_request:
  "createRemixRequest sample_platform direct_event None =
     Inr \<lparr>url = ''https://localhost:3333/'',
          request_method = ''GET'',
          headers = [(''host'', [''localhost:3333''])],
          body = None,
          abortController = None,
          request_signal = None\<rparr>"
  by code_simp






text \<open>
  C6. Whenever the request is built: an event that declares \<open>isBase64Encoded\<close> and has a
  non-empty body gets the body \<open>Buffer.from(body, "base64").toString()\<close>; every other
  event gets its own body, unchanged; an event without a body gets a request without
  one.
\<close>

theorem request_body_decoding:
  assumes "createRemixRequest P ev ac = Inr req"
  shows "(\<forall>b. event.isBase64Encoded ev \<and> event.body ev = Some b \<and> b \<noteq> []
            \<longrightarrow> request.body req = Some (toString P (from_base64 P b)))
       \<and> (\<not> (event.isBase64Encoded ev \<and> (\<exists>b. event.body ev = Some b \<and> b \<noteq> []))
            \<longrightarrow> request.body req = event.body ev)
       \<and> (event.body ev = None \<longrightarrow> request.body req = None)"
  unfolding createRemixRequest_fields(3) [OF assms]
  by (auto simp: request_body_def split: option.splits)

theorem request_body_decoding_witness:
  "event.isBase64Encoded example_event \<and> event.body example_event = Some ''aGVsbG8=''
   \<and> map_sum id request.body (createRemixRequest sample_platform example_event None) = Inr (Some ''hello'')
   \<and> event.body direct_event = None
   \<and> map_sum id request.body (createRemixRequest sample_platform direct_event None) = Inr None"
proof -
  have e: "event.isBase64Encoded example_event" "event.body example_event = Some ''aGVsbG8=''"
    and d: "event.body direct_event = None"
    by (simp_all add: example_event_def direct_event_def)
  have dec: "toString sample_platform (from_base64 sample_platform ''aGVsbG8='') = ''hello''"
    by code_simp
  note t1 = request_body_decoding [OF example_request, THEN conjunct1, THEN spec, THEN mp]
  note t2 = request_body_decoding [OF direct_request, THEN conjunct2, THEN conjunct2, THEN mp, OF d]
  have b1: "map_sum id request.body (createRemixRequest sample_platform example_event None) = Inr (Some ''hello'')"
    unfolding example_request using t1 [of "''aGVsbG8=''"] e by (simp add: dec)
  have b2: "map_sum id request.body (createRemixRequest sample_platform direct_event None) = Inr None"
    unfolding direct_request using t2 by simp
  from e b1 d b2 show ?thesis by (intro conjI)
qed










end
